theory Spec2Isabelle
  imports Main
begin

section \<open>The amino-acid chain object\<close>

text \<open>
  The notebook builds one object, \<^verbatim>\<open>aa = AminoAcidChain(len(chain.x), np.sort(chain.h),
  np.array(chain.x), np.array(chain.y))\<close>, and the optimizer cell reads and writes six of
  its attributes: \<^verbatim>\<open>x\<close>, \<^verbatim>\<open>y\<close> (the committed coordinates), \<^verbatim>\<open>temp_x\<close>, \<^verbatim>\<open>temp_y\<close>
  (the candidate left behind by \<^verbatim>\<open>move\<close>), \<^verbatim>\<open>temp_energy\<close> and \<^verbatim>\<open>prev_energy\<close> (the
  cached committed energy). The first two constructor arguments (the number of residues
  and the sorted indices of the hydrophobic residues) are kept as \<open>aa_N\<close> and \<open>aa_h\<close>.
  Coordinates are grid points and energies are contact counts, so both are integers here
  (the notebook holds them in numpy arrays; an energy prints as \<^verbatim>\<open>23.0\<close>).
  \<^verbatim>\<open>np.array(aa.temp_x)\<close> copies, so the committed arrays never alias the candidate and
  plain values are enough.
\<close>

record aa_chain =
  aa_N :: nat
  aa_h :: "nat list"
  aa_x :: "int list"
  aa_y :: "int list"
  aa_temp_x :: "int list"
  aa_temp_y :: "int list"
  aa_temp_energy :: int
  aa_prev_energy :: int

text \<open>
  Neither \<^verbatim>\<open>move\<close> nor \<^verbatim>\<open>measure_energy\<close> is defined in the notebook (they are methods
  of the imported class), so the loop takes both as parameters. \<^verbatim>\<open>aa.move()\<close> draws
  random numbers and mutates the object, then returns the success flag: it is a function of
  the random generator's state \<open>'g\<close> and the object, giving the flag and both updated.
  \<^verbatim>\<open>aa.measure_energy(xs, ys)\<close> is called for its value only: the evaluator is a pure
  function of the object and the coordinates it is given.
\<close>

type_synonym 'g move_fn = "'g \<Rightarrow> aa_chain \<Rightarrow> bool \<times> 'g \<times> aa_chain"

type_synonym energy_fn = "aa_chain \<Rightarrow> int list \<Rightarrow> int list \<Rightarrow> int"

section \<open>The optimizer cell\<close>

text \<open>
  The state of the cell: the generator, the object \<^verbatim>\<open>aa\<close>, the array
  \<^verbatim>\<open>energy_change\<close>, the counter \<^verbatim>\<open>step\<close>, and what the accept branch has printed
  (one entry per \<^verbatim>\<open>Update...\<close> line: the step, the old energy, the new energy).
  \<^verbatim>\<open>plot_aa\<close> only draws.
\<close>

record 'g optimizer_state =
  rng :: 'g
  aa :: aa_chain
  energy_change :: "int list"
  step :: nat
  printed :: "(nat \<times> int \<times> int) list"

datatype error = IndexError

text \<open>\<^verbatim>\<open>aa.temp_energy = aa.measure_energy(aa.temp_x, aa.temp_y)\<close>\<close>

definition evaluate :: "energy_fn \<Rightarrow> aa_chain \<Rightarrow> aa_chain" where
  "evaluate energy a =
     a\<lparr>aa_temp_energy := energy a (aa_temp_x a) (aa_temp_y a)\<rparr>"

text \<open>\<^verbatim>\<open>if (aa.temp_energy - aa.prev_energy < 0):\<close>\<close>

definition improves :: "aa_chain \<Rightarrow> bool" where
  "improves a \<longleftrightarrow> aa_temp_energy a - aa_prev_energy a < 0"

text \<open>The three assignments of the accept branch.\<close>

definition commit :: "aa_chain \<Rightarrow> aa_chain" where
  "commit a = a\<lparr>aa_x := aa_temp_x a, aa_y := aa_temp_y a, aa_prev_energy := aa_temp_energy a\<rparr>"

definition decide :: "aa_chain \<Rightarrow> aa_chain" where
  "decide a = (if improves a then commit a else a)"

text \<open>
  One pass through the body of the \<^verbatim>\<open>while\<close>. The write \<^verbatim>\<open>energy_change[step]\<close>
  raises \<^verbatim>\<open>IndexError\<close> outside the array.
\<close>

definition loop_body ::
  "'g move_fn \<Rightarrow> energy_fn \<Rightarrow> 'g optimizer_state \<Rightarrow> error + 'g optimizer_state" where
  "loop_body move energy s =
     (case move (rng s) (aa s) of (success, g', a1) \<Rightarrow>
        if success then
          let a2 = evaluate energy a1;
              out = (if improves a2
                     then printed s @ [(step s, aa_prev_energy a2, aa_temp_energy a2)]
                     else printed s);
              a3 = decide a2
          in if step s < length (energy_change s)
             then Inr (s\<lparr>rng := g', aa := a3,
                         energy_change := (energy_change s)[step s := aa_prev_energy a3],
                         step := step s + 1, printed := out\<rparr>)
             else Inl IndexError
        else Inr (s\<lparr>rng := g', aa := a1\<rparr>))"

text \<open>
  \<^verbatim>\<open>while step < num_steps: ...\<close> The loop has no bound on its iterations (a failed move
  repeats without counting), so not returning is the value \<open>None\<close>.
\<close>

partial_function (option) optimizer_loop ::
  "'g move_fn \<Rightarrow> energy_fn \<Rightarrow> nat \<Rightarrow> 'g optimizer_state \<Rightarrow> (error + 'g optimizer_state) option"
  where
  "optimizer_loop move energy num_steps s =
     (if step s < num_steps
      then (case loop_body move energy s of
              Inl e \<Rightarrow> Some (Inl e)
            | Inr s' \<Rightarrow> optimizer_loop move energy num_steps s')
      else Some (Inr s))"

declare optimizer_loop.simps [code]

text \<open>
  \<^verbatim>\<open>energy_change = np.zeros(num_steps); step = 0\<close>, then the loop. \<^verbatim>\<open>np.zeros\<close> takes
  no negative size, so \<open>num_steps\<close> is a natural number.
\<close>

definition initial_state :: "'g \<Rightarrow> aa_chain \<Rightarrow> nat \<Rightarrow> 'g optimizer_state" where
  "initial_state g a num_steps =
     \<lparr>rng = g, aa = a, energy_change = replicate num_steps 0, step = 0, printed = []\<rparr>"

definition run_optimizer ::
  "'g move_fn \<Rightarrow> energy_fn \<Rightarrow> nat \<Rightarrow> 'g \<Rightarrow> aa_chain \<Rightarrow> (error + 'g optimizer_state) option" where
  "run_optimizer move energy num_steps g a =
     optimizer_loop move energy num_steps (initial_state g a num_steps)"

text \<open>\<^verbatim>\<open>print("The lowest energy we could find is %d"%aa.prev_energy)\<close>\<close>

definition reported_energy :: "'g optimizer_state \<Rightarrow> int" where
  "reported_energy s = aa_prev_energy (aa s)"


section \<open>Counting passes through the loop\<close>

text \<open>
  The state after at most \<open>k\<close> passes through the body: the loop with its guard, cut
  off after \<open>k\<close> passes. It names the intermediate states of a run.
\<close>

fun loop_iterations ::
  "'g move_fn \<Rightarrow> energy_fn \<Rightarrow> nat \<Rightarrow> nat \<Rightarrow> 'g optimizer_state \<Rightarrow> error + 'g optimizer_state"
  where
  "loop_iterations move energy num_steps 0 s = Inr s"
| "loop_iterations move energy num_steps (Suc k) s =
     (if step s < num_steps
      then (case loop_body move energy s of
              Inl e \<Rightarrow> Inl e
            | Inr s' \<Rightarrow> loop_iterations move energy num_steps k s')
      else Inr s)"

text \<open>A result at which the loop stops: an exception, or a state whose guard is false.\<close>

fun finished :: "nat \<Rightarrow> error + 'g optimizer_state \<Rightarrow> bool" where
  "finished num_steps (Inl e) = True"
| "finished num_steps (Inr s) = (\<not> step s < num_steps)"

text \<open>
  The indices at which the first \<open>k\<close> passes write \<^verbatim>\<open>energy_change[step]\<close>: a pass
  writes, at the current value of \<open>step\<close>, when its move succeeded.
\<close>

fun write_indices ::
  "'g move_fn \<Rightarrow> energy_fn \<Rightarrow> nat \<Rightarrow> nat \<Rightarrow> 'g optimizer_state \<Rightarrow> nat list" where
  "write_indices move energy num_steps 0 s = []"
| "write_indices move energy num_steps (Suc k) s =
     (if step s < num_steps
      then (if fst (move (rng s) (aa s)) then [step s] else []) @
           (case loop_body move energy s of
              Inl e \<Rightarrow> []
            | Inr s' \<Rightarrow> write_indices move energy num_steps k s')
      else [])"

text \<open>
  What one pass does to the generator and the object alone, with no counter and no
  trace: the unbounded sequence of proposals that the loop draws from.
\<close>

definition chain_step :: "'g move_fn \<Rightarrow> energy_fn \<Rightarrow> 'g \<times> aa_chain \<Rightarrow> 'g \<times> aa_chain" where
  "chain_step move energy p =
     (case move (fst p) (snd p) of (success, g', a1) \<Rightarrow>
        (g', if success then decide (evaluate energy a1) else a1))"

definition attempt_succeeds :: "'g move_fn \<Rightarrow> energy_fn \<Rightarrow> 'g \<Rightarrow> aa_chain \<Rightarrow> nat \<Rightarrow> bool" where
  "attempt_succeeds move energy g a k =
     (case (chain_step move energy ^^ k) (g, a) of (g1, a1) \<Rightarrow> fst (move g1 a1))"

text \<open>The number of valid candidates among the first \<open>k\<close> proposals.\<close>

definition valid_candidates :: "'g move_fn \<Rightarrow> energy_fn \<Rightarrow> 'g \<Rightarrow> aa_chain \<Rightarrow> nat \<Rightarrow> nat" where
  "valid_candidates move energy g a k = length (filter (attempt_succeeds move energy g a) [0..<k])"

definition succeeds_infinitely_often :: "'g move_fn \<Rightarrow> energy_fn \<Rightarrow> 'g \<Rightarrow> aa_chain \<Rightarrow> bool" where
  "succeeds_infinitely_often move energy g a \<longleftrightarrow>
     (\<forall>k. \<exists>j. k \<le> j \<and> attempt_succeeds move energy g a j)"

section \<open>The contract of the move generator\<close>

text \<open>
  Modelled from the spec: the method \<^verbatim>\<open>move\<close> of the class \<^verbatim>\<open>AminoAcidChain\<close> (module
  \<^verbatim>\<open>proteinfolding_classes\<close>) is not in the repository. Its output contract is that a
  proposal, valid or not, leaves the committed chain untouched until the optimizer
  commits: the committed coordinates and the cached energy are the same after the call.
\<close>

definition move_frame :: "'g move_fn \<Rightarrow> bool" where
  "move_frame move \<longleftrightarrow>
     (\<forall>g a. case move g a of (success, g', a') \<Rightarrow>
        aa_x a' = aa_x a \<and> aa_y a' = aa_y a \<and> aa_prev_energy a' = aa_prev_energy a)"

section \<open>Invariants of the trace\<close>

text \<open>The array keeps its length and the counter stays within it.\<close>

definition in_bounds :: "nat \<Rightarrow> 'g optimizer_state \<Rightarrow> bool" where
  "in_bounds num_steps s \<longleftrightarrow> length (energy_change s) = num_steps \<and> step s \<le> num_steps"

text \<open>
  The entries written so far never increase, none is below the cached energy, and the
  last one written is the cached energy.
\<close>

definition trace_inv :: "nat \<Rightarrow> 'g optimizer_state \<Rightarrow> bool" where
  "trace_inv num_steps s \<longleftrightarrow>
     in_bounds num_steps s \<and>
     sorted_wrt (\<ge>) (take (step s) (energy_change s)) \<and>
     (\<forall>z \<in> set (take (step s) (energy_change s)). aa_prev_energy (aa s) \<le> z) \<and>
     (0 < step s \<longrightarrow> energy_change s ! (step s - 1) = aa_prev_energy (aa s))"

section \<open>The energy evaluator\<close>

text \<open>
  Modelled from the spec: the method \<^verbatim>\<open>measure_energy\<close> of the class \<^verbatim>\<open>AminoAcidChain\<close>
  (module \<^verbatim>\<open>proteinfolding_classes\<close>) is not in the repository. For every hydrophobic
  residue the evaluator looks at the four cells next to it (up, down, left, right) and
  counts the cell when a polar residue or nothing (water) is there; a cell holding a
  hydrophobic residue is not counted. The energy is the sum over the hydrophobic
  residues. The spec names one edge case apart: a chain of a single residue has no
  contacts and energy 0, whatever its tag. A coordinate array of the wrong length is a
  contract violation that fails loudly.
\<close>

datatype hydrophobicity = Hydrophobic | Polar

datatype contract_violation = LengthMismatch

definition adjacent_cells :: "int \<times> int \<Rightarrow> (int \<times> int) list" where
  "adjacent_cells c = [(fst c, snd c + 1), (fst c, snd c - 1), (fst c - 1, snd c), (fst c + 1, snd c)]"

definition unfavourable :: "hydrophobicity list \<Rightarrow> (int \<times> int) list \<Rightarrow> int \<times> int \<Rightarrow> bool" where
  "unfavourable tags cells c =
     (case map_of (zip cells tags) c of
        None \<Rightarrow> True
      | Some Polar \<Rightarrow> True
      | Some Hydrophobic \<Rightarrow> False)"

definition residue_energy ::
  "hydrophobicity list \<Rightarrow> (int \<times> int) list \<Rightarrow> hydrophobicity \<times> (int \<times> int) \<Rightarrow> int" where
  "residue_energy tags cells r =
     (case fst r of
        Hydrophobic \<Rightarrow> int (length (filter (unfavourable tags cells) (adjacent_cells (snd r))))
      | Polar \<Rightarrow> 0)"

definition measure_energy ::
  "hydrophobicity list \<Rightarrow> int list \<Rightarrow> int list \<Rightarrow> contract_violation + int" where
  "measure_energy tags xs ys =
     (if length xs = length tags \<and> length ys = length tags
      then (if length tags = 1 then Inr 0
            else Inr (sum_list (map (residue_energy tags (zip xs ys)) (zip tags (zip xs ys)))))
      else Inl LengthMismatch)"

section \<open>A small run\<close>

text \<open>
  Four residues, hydrophobic at both ends, laid out on a straight line. The generator
  state is a counter: of every three proposals the first fails, the second bends the last
  bond upwards, the third folds the chain into a square.
\<close>

definition example_tags :: "aa_chain \<Rightarrow> hydrophobicity list" where
  "example_tags a = map (\<lambda>i. if i \<in> set (aa_h a) then Hydrophobic else Polar) [0..<aa_N a]"

definition example_energy :: energy_fn where
  "example_energy a xs ys = (case measure_energy (example_tags a) xs ys of Inr e \<Rightarrow> e | Inl v \<Rightarrow> 0)"

definition example_chain :: aa_chain where
  "example_chain =
     \<lparr>aa_N = 4, aa_h = [0, 3], aa_x = [0, 1, 2, 3], aa_y = [0, 0, 0, 0],
      aa_temp_x = [0, 1, 2, 3], aa_temp_y = [0, 0, 0, 0], aa_temp_energy = 8, aa_prev_energy = 8\<rparr>"

definition example_move :: "nat move_fn" where
  "example_move g a =
     (if g mod 3 = 0 then (False, Suc g, a)
      else if g mod 3 = 1
      then (True, Suc g, a\<lparr>aa_temp_x := [0, 1, 2, 2], aa_temp_y := [0, 0, 0, 1]\<rparr>)
      else (True, Suc g, a\<lparr>aa_temp_x := [0, 1, 1, 0], aa_temp_y := [0, 0, 1, 1]\<rparr>))"

text \<open>The state in which a run of three steps from the straight line ends.\<close>

definition example_final :: "nat optimizer_state" where
  "example_final =
     \<lparr>rng = 5,
      aa = \<lparr>aa_N = 4, aa_h = [0, 3], aa_x = [0, 1, 1, 0], aa_y = [0, 0, 1, 1],
            aa_temp_x = [0, 1, 2, 2], aa_temp_y = [0, 0, 0, 1], aa_temp_energy = 8,
            aa_prev_energy = 6\<rparr>,
      energy_change = [8, 6, 6], step = 3, printed = [(1, 8, 6)]\<rparr>"

text \<open>
  The state in which a run of one step from the straight line ends: the first proposal
  fails, the retry bends the chain and is rejected.
\<close>

definition example_retry_final :: "nat optimizer_state" where
  "example_retry_final =
     \<lparr>rng = 2,
      aa = \<lparr>aa_N = 4, aa_h = [0, 3], aa_x = [0, 1, 2, 3], aa_y = [0, 0, 0, 0],
            aa_temp_x = [0, 1, 2, 2], aa_temp_y = [0, 0, 0, 1], aa_temp_energy = 8,
            aa_prev_energy = 8\<rparr>,
      energy_change = [8], step = 1, printed = []\<rparr>"

text \<open>A generator that never finds a valid candidate.\<close>

definition stuck_move :: "nat move_fn" where
  "stuck_move g a = (False, Suc g, a)"

section \<open>The loop and its passes\<close>

text \<open>The loop unfolds one pass at a time.\<close>

lemma loop_stops:
  "\<not> step s < n \<Longrightarrow> optimizer_loop move energy n s = Some (Inr s)"
  by (subst optimizer_loop.simps) simp

lemma loop_unfold:
  "step s < n \<Longrightarrow> loop_body move energy s = Inr s' \<Longrightarrow>
   optimizer_loop move energy n s = optimizer_loop move energy n s'"
  by (subst optimizer_loop.simps) simp

lemma loop_raises:
  "step s < n \<Longrightarrow> loop_body move energy s = Inl e \<Longrightarrow>
   optimizer_loop move energy n s = Some (Inl e)"
  by (subst optimizer_loop.simps) simp

lemma iterations_imp_loop:
  "loop_iterations move energy n k s = r \<Longrightarrow> finished n r \<Longrightarrow>
   optimizer_loop move energy n s = Some r"
proof (induction k arbitrary: s)
  case 0
  then show ?case by (auto simp: loop_stops)
next
  case (Suc k)
  show ?case
  proof (cases "step s < n")
    case False
    with Suc.prems show ?thesis by (auto simp: loop_stops)
  next
    case guard: True
    show ?thesis
    proof (cases "loop_body move energy s")
      case (Inl e)
      with guard Suc.prems show ?thesis by (auto simp: loop_raises)
    next
      case (Inr s')
      with guard Suc.prems have "loop_iterations move energy n k s' = r" by simp
      then have "optimizer_loop move energy n s' = Some r"
        using Suc.IH Suc.prems(2) by blast
      with guard Inr show ?thesis by (simp add: loop_unfold)
    qed
  qed
qed

lemma loop_imp_iterations:
  assumes "optimizer_loop move energy n s = Some r"
  shows "\<exists>k. loop_iterations move energy n k s = r \<and> finished n r"
proof (rule optimizer_loop.raw_induct
    [where P = "\<lambda>move energy n s r. \<exists>k. loop_iterations move energy n k s = r \<and> finished n r",
     OF _ assms])
  fix loop :: "'a move_fn \<Rightarrow> energy_fn \<Rightarrow> nat \<Rightarrow> 'a optimizer_state \<Rightarrow> (error + 'a optimizer_state) option"
  fix move energy n s r
  assume IH: "\<And>move energy n s r. loop move energy n s = Some r \<Longrightarrow>
               \<exists>k. loop_iterations move energy n k s = r \<and> finished n r"
  assume unfolded:
    "(if step s < n
      then case loop_body move energy s of Inl e \<Rightarrow> Some (Inl e) | Inr s' \<Rightarrow> loop move energy n s'
      else Some (Inr s)) = Some r"
  show "\<exists>k. loop_iterations move energy n k s = r \<and> finished n r"
  proof (cases "step s < n")
    case False
    with unfolded have "loop_iterations move energy n 0 s = r \<and> finished n r" by auto
    then show ?thesis by blast
  next
    case guard: True
    show ?thesis
    proof (cases "loop_body move energy s")
      case (Inl e)
      with guard unfolded have "loop_iterations move energy n (Suc 0) s = r \<and> finished n r"
        by auto
      then show ?thesis by blast
    next
      case (Inr s')
      with guard unfolded have "loop move energy n s' = Some r" by simp
      then obtain k where "loop_iterations move energy n k s' = r \<and> finished n r"
        using IH by blast
      with guard Inr have "loop_iterations move energy n (Suc k) s = r \<and> finished n r"
        by simp
      then show ?thesis by blast
    qed
  qed
qed

lemma loop_body_success:
  "move (rng s) (aa s) = (True, g', a1) \<Longrightarrow> step s < length (energy_change s) \<Longrightarrow>
   loop_body move energy s =
     Inr (s\<lparr>rng := g', aa := decide (evaluate energy a1),
           energy_change := (energy_change s)[step s := aa_prev_energy (decide (evaluate energy a1))],
           step := Suc (step s),
           printed := (if improves (evaluate energy a1)
                       then printed s @ [(step s, aa_prev_energy a1, energy a1 (aa_temp_x a1) (aa_temp_y a1))]
                       else printed s)\<rparr>)"
  by (simp add: loop_body_def Let_def evaluate_def)

lemma loop_body_failure:
  "move (rng s) (aa s) = (False, g', a1) \<Longrightarrow> loop_body move energy s = Inr (s\<lparr>rng := g', aa := a1\<rparr>)"
  by (simp add: loop_body_def)

lemma loop_body_raises:
  "move (rng s) (aa s) = (True, g', a1) \<Longrightarrow> \<not> step s < length (energy_change s) \<Longrightarrow>
   loop_body move energy s = Inl IndexError"
  by (simp add: loop_body_def Let_def)

lemma loop_body_chain:
  "loop_body move energy s = Inr s' \<Longrightarrow> (rng s', aa s') = chain_step move energy (rng s, aa s)"
  by (cases "move (rng s) (aa s)")
     (auto simp: loop_body_def chain_step_def Let_def split: if_splits)

lemma loop_body_counter:
  "loop_body move energy s = Inr s' \<Longrightarrow>
   step s' = step s + (if fst (move (rng s) (aa s)) then 1 else 0) \<and>
   length (energy_change s') = length (energy_change s)"
  by (cases "move (rng s) (aa s)")
     (auto simp: loop_body_def Let_def split: if_splits)

lemma loop_body_in_bounds:
  "step s < length (energy_change s) \<Longrightarrow> \<exists>s'. loop_body move energy s = Inr s'"
  by (cases "move (rng s) (aa s)")
     (auto simp: loop_body_def Let_def split: if_splits)

section \<open>What one pass preserves\<close>

lemma move_frameD:
  assumes "move_frame move" and "move g a = (success, g', a')"
  shows "aa_x a' = aa_x a \<and> aa_y a' = aa_y a \<and> aa_prev_energy a' = aa_prev_energy a"
  using assms(1) [unfolded move_frame_def, rule_format, where g = g and a = a] assms(2) by simp

lemma decide_energy: "aa_prev_energy (decide (evaluate energy a)) \<le> aa_prev_energy a"
  by (simp add: decide_def improves_def commit_def evaluate_def)

lemma in_bounds_initial: "in_bounds n (initial_state g a n)"
  by (simp add: in_bounds_def initial_state_def)

lemma trace_inv_initial: "trace_inv n (initial_state g a n)"
  by (simp add: trace_inv_def in_bounds_def initial_state_def)

lemma body_keeps_in_bounds:
  assumes "in_bounds n s" and "step s < n"
  shows "\<exists>s'. loop_body move energy s = Inr s' \<and> in_bounds n s' \<and> step s \<le> step s'"
proof -
  from assms have "step s < length (energy_change s)" by (simp add: in_bounds_def)
  then obtain s' where body: "loop_body move energy s = Inr s'"
    using loop_body_in_bounds by blast
  from loop_body_counter [OF body] assms have "in_bounds n s' \<and> step s \<le> step s'"
    by (auto simp: in_bounds_def)
  with body show ?thesis by blast
qed

lemma body_keeps_trace_inv:
  assumes frame: "move_frame move" and inv: "trace_inv n s" and guard: "step s < n"
  shows "\<exists>s'. loop_body move energy s = Inr s' \<and> trace_inv n s'"
proof (cases "move (rng s) (aa s)")
  case (fields success g' a1)
  from move_frameD [OF frame fields]
  have same: "aa_prev_energy a1 = aa_prev_energy (aa s)" by simp
  from inv guard have len: "step s < length (energy_change s)"
    by (simp add: trace_inv_def in_bounds_def)
  show ?thesis
  proof (cases success)
    case False
    with fields have "loop_body move energy s = Inr (s\<lparr>rng := g', aa := a1\<rparr>)"
      by (simp add: loop_body_failure)
    moreover from inv same have "trace_inv n (s\<lparr>rng := g', aa := a1\<rparr>)"
      by (simp add: trace_inv_def in_bounds_def)
    ultimately show ?thesis by blast
  next
    case True
    define a3 where "a3 = decide (evaluate energy a1)"
    define out where "out = (if improves (evaluate energy a1)
        then printed s @ [(step s, aa_prev_energy a1, energy a1 (aa_temp_x a1) (aa_temp_y a1))]
        else printed s)"
    define s' where "s' = s\<lparr>rng := g', aa := a3,
        energy_change := (energy_change s)[step s := aa_prev_energy a3],
        step := Suc (step s), printed := out\<rparr>"
    from True fields len have body: "loop_body move energy s = Inr s'"
      by (simp add: loop_body_success s'_def a3_def out_def)
    have low: "aa_prev_energy a3 \<le> aa_prev_energy (aa s)"
      using decide_energy [of energy a1] same by (simp add: a3_def)
    have tk: "take (step s') (energy_change s') = take (step s) (energy_change s) @ [aa_prev_energy a3]"
      using len by (simp add: s'_def take_Suc_conv_app_nth)
    have "in_bounds n s'" using inv guard by (simp add: s'_def trace_inv_def in_bounds_def)
    moreover have "sorted_wrt (\<ge>) (take (step s') (energy_change s'))"
      using inv low unfolding tk by (fastforce simp: trace_inv_def sorted_wrt_append)
    moreover have "\<forall>z \<in> set (take (step s') (energy_change s')). aa_prev_energy (aa s') \<le> z"
      using inv low unfolding tk by (fastforce simp: trace_inv_def s'_def)
    moreover have "energy_change s' ! (step s' - 1) = aa_prev_energy (aa s')"
      using len by (simp add: s'_def)
    ultimately have "trace_inv n s'" by (simp add: trace_inv_def)
    with body show ?thesis by blast
  qed
qed

lemma iterations_keep_trace_inv:
  "move_frame move \<Longrightarrow> trace_inv n s \<Longrightarrow>
   \<exists>s'. loop_iterations move energy n k s = Inr s' \<and> trace_inv n s'"
proof (induction k arbitrary: s)
  case 0
  then show ?case by simp
next
  case (Suc k)
  show ?case
  proof (cases "step s < n")
    case False
    with Suc.prems show ?thesis by simp
  next
    case True
    from body_keeps_trace_inv [OF Suc.prems True]
    obtain s1 where s1: "loop_body move energy s = Inr s1" "trace_inv n s1" by blast
    from Suc.IH [OF Suc.prems(1) s1(2)] True s1(1) show ?thesis by simp
  qed
qed

section \<open>Whole runs\<close>

lemma iterations_write_indices:
  "in_bounds n s \<Longrightarrow>
   \<exists>s'. loop_iterations move energy n k s = Inr s' \<and> in_bounds n s' \<and> step s \<le> step s' \<and>
        write_indices move energy n k s = [step s..<step s']"
proof (induction k arbitrary: s)
  case 0
  then show ?case by simp
next
  case (Suc k)
  show ?case
  proof (cases "step s < n")
    case False
    with Suc.prems show ?thesis by simp
  next
    case True
    from body_keeps_in_bounds [OF Suc.prems True]
    obtain s1 where s1: "loop_body move energy s = Inr s1" "in_bounds n s1" by blast
    from loop_body_counter [OF s1(1)]
    have cnt: "step s1 = step s + (if fst (move (rng s) (aa s)) then 1 else 0)" by simp
    from Suc.IH [OF s1(2)]
    obtain s' where s': "loop_iterations move energy n k s1 = Inr s'" "in_bounds n s'"
      "step s1 \<le> step s'" "write_indices move energy n k s1 = [step s1..<step s']"
      by blast
    have "write_indices move energy n (Suc k) s = [step s..<step s']"
    proof (cases "fst (move (rng s) (aa s))")
      case ok: True
      with cnt s'(3) have "step s < step s'" "step s1 = Suc (step s)" by simp_all
      with True ok s1(1) s'(4) show ?thesis by (simp add: upt_conv_Cons)
    next
      case False
      with cnt True s1(1) s'(4) show ?thesis by simp
    qed
    moreover from cnt s'(3) have "step s \<le> step s'" by (simp split: if_splits)
    ultimately show ?thesis using True s1(1) s'(1,2) by simp
  qed
qed

lemma completed_run_in_bounds:
  assumes "run_optimizer move energy n g a = Some r"
  shows "\<exists>s' k. r = Inr s' \<and> step s' = n \<and> length (energy_change s') = n \<and>
           loop_iterations move energy n k (initial_state g a n) = Inr s' \<and>
           write_indices move energy n k (initial_state g a n) = [0..<n]"
proof -
  let ?s0 = "initial_state g a n"
  from assms obtain k where k: "loop_iterations move energy n k ?s0 = r" "finished n r"
    using loop_imp_iterations unfolding run_optimizer_def by blast
  from iterations_write_indices
    [OF in_bounds_initial [of n g a], where move = move and energy = energy and k = k]
  obtain s' where s': "loop_iterations move energy n k ?s0 = Inr s'" "in_bounds n s'"
    "write_indices move energy n k ?s0 = [step ?s0..<step s']" by blast
  from k s'(1) have r: "r = Inr s'" and "\<not> step s' < n" by auto
  with s'(2) have "step s' = n" "length (energy_change s') = n" by (simp_all add: in_bounds_def)
  moreover have "step ?s0 = 0" by (simp add: initial_state_def)
  ultimately show ?thesis using r s'(1,3) by auto
qed

lemma completed_run_trace_inv:
  assumes "move_frame move" and "run_optimizer move energy n g a = Some r"
  shows "\<exists>s'. r = Inr s' \<and> step s' = n \<and> trace_inv n s'"
proof -
  let ?s0 = "initial_state g a n"
  from assms(2) obtain k where k: "loop_iterations move energy n k ?s0 = r" "finished n r"
    using loop_imp_iterations unfolding run_optimizer_def by blast
  from iterations_keep_trace_inv
    [OF assms(1) trace_inv_initial [of n g a], where energy = energy and k = k]
  obtain s' where s': "loop_iterations move energy n k ?s0 = Inr s'" "trace_inv n s'" by blast
  from k s'(1) have r: "r = Inr s'" and "\<not> step s' < n" by auto
  with s'(2) have "step s' = n" by (simp add: trace_inv_def in_bounds_def)
  with r s'(2) show ?thesis by blast
qed

lemma trace_inv_descending:
  assumes "trace_inv n s" and "Suc k < step s"
  shows "energy_change s ! Suc k \<le> energy_change s ! k"
proof -
  let ?t = "take (step s) (energy_change s)"
  from assms have len: "Suc k < length ?t" by (simp add: trace_inv_def in_bounds_def)
  from assms(1) have srt: "sorted_wrt (\<ge>) ?t" by (simp add: trace_inv_def)
  have "?t ! k \<ge> ?t ! Suc k"
    using sorted_wrt_nth_less [OF srt, of k "Suc k"] len by simp
  with assms(2) show ?thesis by simp
qed

section \<open>The stream of proposals\<close>

lemma attempt_succeeds_0: "attempt_succeeds move energy g a 0 = fst (move g a)"
  by (simp add: attempt_succeeds_def)

lemma attempt_succeeds_Suc:
  "chain_step move energy (g, a) = (g1, a1) \<Longrightarrow>
   attempt_succeeds move energy g a (Suc j) = attempt_succeeds move energy g1 a1 j"
  by (simp add: attempt_succeeds_def funpow_swap1)

lemma valid_candidates_0: "valid_candidates move energy g a 0 = 0"
  by (simp add: valid_candidates_def)

lemma valid_candidates_Suc:
  "valid_candidates move energy g a (Suc k) =
   valid_candidates move energy g a k + (if attempt_succeeds move energy g a k then 1 else 0)"
  by (simp add: valid_candidates_def)

lemma valid_candidates_shift:
  assumes "chain_step move energy (g, a) = (g1, a1)"
  shows "valid_candidates move energy g a (Suc k) =
         (if fst (move g a) then 1 else 0) + valid_candidates move energy g1 a1 k"
proof -
  have "[0..<Suc k] = 0 # map Suc [0..<k]"
    by (simp add: upt_conv_Cons map_Suc_upt del: upt_Suc)
  then have "filter (attempt_succeeds move energy g a) [0..<Suc k] =
      (if attempt_succeeds move energy g a 0 then [0] else []) @
      map Suc (filter (attempt_succeeds move energy g a \<circ> Suc) [0..<k])"
    by (simp add: filter_map del: upt_Suc)
  moreover have "attempt_succeeds move energy g a \<circ> Suc = attempt_succeeds move energy g1 a1"
    using attempt_succeeds_Suc [OF assms] by auto
  ultimately show ?thesis
    by (simp add: valid_candidates_def attempt_succeeds_0 del: upt_Suc)
qed

lemma valid_candidates_mono:
  "j \<le> k \<Longrightarrow> valid_candidates move energy g a j \<le> valid_candidates move energy g a k"
proof (induction k)
  case 0
  then show ?case by simp
next
  case (Suc k)
  then show ?case by (cases "j = Suc k") (auto simp: valid_candidates_Suc)
qed

lemma iterations_follow_chain:
  assumes "in_bounds n s"
    and "\<forall>j<k. step s + valid_candidates move energy (rng s) (aa s) j < n"
  shows "\<exists>s'. loop_iterations move energy n k s = Inr s' \<and>
           step s' = step s + valid_candidates move energy (rng s) (aa s) k \<and>
           (rng s', aa s') = (chain_step move energy ^^ k) (rng s, aa s) \<and> in_bounds n s'"
  using assms
proof (induction k arbitrary: s)
  case 0
  then show ?case by (simp add: valid_candidates_0)
next
  case (Suc k)
  from Suc.prems(2) have guard: "step s < n"
    by (auto simp: valid_candidates_0 dest: spec [of _ 0])
  from body_keeps_in_bounds [OF Suc.prems(1) guard]
  obtain s1 where s1: "loop_body move energy s = Inr s1" "in_bounds n s1" by blast
  from loop_body_counter [OF s1(1)]
  have cnt: "step s1 = step s + (if fst (move (rng s) (aa s)) then 1 else 0)" by simp
  from loop_body_chain [OF s1(1)]
  have chain: "chain_step move energy (rng s, aa s) = (rng s1, aa s1)" by simp
  note shift = valid_candidates_shift [OF chain]
  have "\<forall>j<k. step s1 + valid_candidates move energy (rng s1) (aa s1) j < n"
  proof (intro allI impI)
    fix j assume "j < k"
    then have "step s + valid_candidates move energy (rng s) (aa s) (Suc j) < n"
      using Suc.prems(2) by simp
    then show "step s1 + valid_candidates move energy (rng s1) (aa s1) j < n"
      by (simp add: shift cnt)
  qed
  from Suc.IH [OF s1(2) this]
  obtain s' where s': "loop_iterations move energy n k s1 = Inr s'"
    "step s' = step s1 + valid_candidates move energy (rng s1) (aa s1) k"
    "(rng s', aa s') = (chain_step move energy ^^ k) (rng s1, aa s1)" "in_bounds n s'"
    by blast
  have "loop_iterations move energy n (Suc k) s = Inr s'"
    using guard s1(1) s'(1) by simp
  moreover have "step s' = step s + valid_candidates move energy (rng s) (aa s) (Suc k)"
    using s'(2) by (simp add: shift cnt)
  moreover have "(rng s', aa s') = (chain_step move energy ^^ Suc k) (rng s, aa s)"
    using s'(3) chain by (simp add: funpow_swap1)
  ultimately show ?case using s'(4) by blast
qed

lemma valid_candidates_unbounded:
  assumes "succeeds_infinitely_often move energy g a"
  shows "\<exists>k. m \<le> valid_candidates move energy g a k"
proof (induction m)
  case 0
  show ?case by simp
next
  case (Suc m)
  then obtain k where k: "m \<le> valid_candidates move energy g a k" by blast
  from assms obtain j where j: "k \<le> j" "attempt_succeeds move energy g a j"
    unfolding succeeds_infinitely_often_def by blast
  from j(2) have "valid_candidates move energy g a (Suc j) = Suc (valid_candidates move energy g a j)"
    by (simp add: valid_candidates_Suc)
  moreover from j(1) have "valid_candidates move energy g a k \<le> valid_candidates move energy g a j"
    by (rule valid_candidates_mono)
  ultimately have "Suc m \<le> valid_candidates move energy g a (Suc j)" using k by simp
  then show ?case by blast
qed

lemma first_full_budget:
  assumes "succeeds_infinitely_often move energy g a"
  shows "\<exists>K. valid_candidates move energy g a K = n \<and>
             (\<forall>j<K. valid_candidates move energy g a j < n)"
proof -
  define K where "K = (LEAST k. n \<le> valid_candidates move energy g a k)"
  from valid_candidates_unbounded [OF assms, of n]
  obtain k where "n \<le> valid_candidates move energy g a k" by blast
  then have reach: "n \<le> valid_candidates move energy g a K"
    unfolding K_def by (rule LeastI)
  have below: "\<forall>j<K. valid_candidates move energy g a j < n"
  proof (intro allI impI)
    fix j assume "j < K"
    then have "\<not> n \<le> valid_candidates move energy g a j"
      unfolding K_def by (rule not_less_Least)
    then show "valid_candidates move energy g a j < n" by simp
  qed
  have "valid_candidates move energy g a K \<le> n"
  proof (cases K)
    case 0
    then show ?thesis by (simp add: valid_candidates_0)
  next
    case (Suc K')
    with below have "valid_candidates move energy g a K' < n" by simp
    with Suc show ?thesis by (simp add: valid_candidates_Suc)
  qed
  with reach below show ?thesis by auto
qed

lemma starved_loop_never_returns:
  assumes "\<forall>k. valid_candidates move energy g a k < n"
  shows "run_optimizer move energy n g a = None"
proof (rule ccontr)
  let ?s0 = "initial_state g a n"
  have s0: "step ?s0 = 0" "rng ?s0 = g" "aa ?s0 = a" by (simp_all add: initial_state_def)
  assume "run_optimizer move energy n g a \<noteq> None"
  then obtain r where "optimizer_loop move energy n ?s0 = Some r"
    by (auto simp: run_optimizer_def)
  from loop_imp_iterations [OF this]
  obtain k where k: "loop_iterations move energy n k ?s0 = r" "finished n r" by blast
  from assms have "\<forall>j<k. step ?s0 + valid_candidates move energy (rng ?s0) (aa ?s0) j < n"
    by (simp add: s0)
  from iterations_follow_chain [OF in_bounds_initial this]
  obtain s where s: "loop_iterations move energy n k ?s0 = Inr s"
    "step s = valid_candidates move energy g a k"
    by (auto simp: s0)
  from s(2) assms have "step s < n" by simp
  with k s(1) show False by auto
qed

lemma no_more_candidates:
  assumes "\<forall>j. k \<le> j \<longrightarrow> \<not> attempt_succeeds move energy g a j"
  shows "valid_candidates move energy g a j \<le> valid_candidates move energy g a k"
proof (cases "j \<le> k")
  case True
  then show ?thesis by (rule valid_candidates_mono)
next
  case False
  then have "k \<le> j" by simp
  then have "valid_candidates move energy g a j = valid_candidates move energy g a k"
  proof (induction j rule: dec_induct)
    case base
    show ?case by simp
  next
    case (step i)
    with assms show ?case by (simp add: valid_candidates_Suc)
  qed
  then show ?thesis by simp
qed

section \<open>The small run, evaluated\<close>

text \<open>The straight line and the bent chain have eight unfavourable contacts, the square six.\<close>

lemma example_energy_straight:
  "aa_N a = 4 \<Longrightarrow> aa_h a = [0, 3] \<Longrightarrow> example_energy a [0, 1, 2, 3] [0, 0, 0, 0] = 8"
  by (simp add: example_energy_def example_tags_def measure_energy_def residue_energy_def
      unfavourable_def adjacent_cells_def upt_rec)

lemma example_energy_bent:
  "aa_N a = 4 \<Longrightarrow> aa_h a = [0, 3] \<Longrightarrow> example_energy a [0, 1, 2, 2] [0, 0, 0, 1] = 8"
  by (simp add: example_energy_def example_tags_def measure_energy_def residue_energy_def
      unfavourable_def adjacent_cells_def upt_rec)

lemma example_energy_square:
  "aa_N a = 4 \<Longrightarrow> aa_h a = [0, 3] \<Longrightarrow> example_energy a [0, 1, 1, 0] [0, 0, 1, 1] = 6"
  by (simp add: example_energy_def example_tags_def measure_energy_def residue_energy_def
      unfavourable_def adjacent_cells_def upt_rec)

lemma example_run:
  "run_optimizer example_move example_energy 3 0 example_chain = Some (Inr example_final)"
  by code_simp

lemma example_iterations:
  "loop_iterations example_move example_energy 3 5 (initial_state 0 example_chain 3) = Inr example_final"
  by code_simp

lemma example_writes:
  "write_indices example_move example_energy 3 5 (initial_state 0 example_chain 3) = [0, 1, 2]"
  by code_simp

lemma example_retry_pass:
  "loop_body example_move example_energy
     \<lparr>rng = 1, aa = example_chain, energy_change = [0], step = 0, printed = []\<rparr>
   = Inr example_retry_final"
  by code_simp

lemma example_move_frame: "move_frame example_move"
  by (simp add: move_frame_def example_move_def)

lemma example_rng_step: "fst (chain_step example_move energy p) = Suc (fst p)"
  by (simp add: chain_step_def example_move_def)

lemma example_rng: "fst ((chain_step example_move energy ^^ k) (g, a)) = g + k"
  by (induction k) (simp_all add: example_rng_step)

lemma example_attempts:
  "attempt_succeeds example_move energy g a j = ((g + j) mod 3 \<noteq> 0)"
proof -
  obtain g1 a1 where p: "(chain_step example_move energy ^^ j) (g, a) = (g1, a1)"
    by (cases "(chain_step example_move energy ^^ j) (g, a)")
  with example_rng [where energy = energy and k = j and g = g and a = a] have "g1 = g + j" by simp
  with p show ?thesis by (simp add: attempt_succeeds_def example_move_def)
qed

lemma example_succeeds_infinitely_often:
  "succeeds_infinitely_often example_move energy 0 a"
  unfolding succeeds_infinitely_often_def
proof
  fix k
  have "k \<le> 3 * k + 1 \<and> attempt_succeeds example_move energy 0 a (3 * k + 1)"
    by (simp add: example_attempts)
  then show "\<exists>j. k \<le> j \<and> attempt_succeeds example_move energy 0 a j" by blast
qed

lemma stuck_attempts: "\<not> attempt_succeeds stuck_move energy g a j"
  by (simp add: attempt_succeeds_def stuck_move_def split: prod.splits)

lemma stuck_candidates: "valid_candidates stuck_move energy g a k = 0"
  by (simp add: valid_candidates_def stuck_attempts)

section \<open>Accepting and rejecting\<close>

text \<open>
  C1: in a pass whose move produced a valid candidate \<open>a1\<close> (the object as \<^verbatim>\<open>move\<close> left
  it), the accept branch is taken (it prints its line) if and only if the candidate's
  energy is strictly less than the cached committed energy. When it is taken, the
  candidate's coordinates become the chain's coordinates and its energy becomes the cached
  energy; when the energy is equal or greater, coordinates and cached energy stay as they
  were and nothing is printed.
\<close>

theorem candidate_committed_iff_strictly_lower:
  assumes "move (rng s) (aa s) = (True, g', a1)" and "step s < length (energy_change s)"
  shows "\<exists>s'. loop_body move energy s = Inr s' \<and>
     (printed s' \<noteq> printed s) = (energy a1 (aa_temp_x a1) (aa_temp_y a1) < aa_prev_energy a1) \<and>
     (if energy a1 (aa_temp_x a1) (aa_temp_y a1) < aa_prev_energy a1
      then aa_x (aa s') = aa_temp_x a1 \<and> aa_y (aa s') = aa_temp_y a1 \<and>
           aa_prev_energy (aa s') = energy a1 (aa_temp_x a1) (aa_temp_y a1) \<and>
           printed s' = printed s @ [(step s, aa_prev_energy a1, energy a1 (aa_temp_x a1) (aa_temp_y a1))]
      else aa_x (aa s') = aa_x a1 \<and> aa_y (aa s') = aa_y a1 \<and>
           aa_prev_energy (aa s') = aa_prev_energy a1 \<and> printed s' = printed s)"
  using assms by (simp add: loop_body_def evaluate_def improves_def decide_def commit_def Let_def)

theorem candidate_committed_iff_strictly_lower_witness:
  "example_move (rng (initial_state (2::nat) example_chain 3)) (aa (initial_state (2::nat) example_chain 3))
     = (True, 3, example_chain\<lparr>aa_temp_x := [0, 1, 1, 0], aa_temp_y := [0, 0, 1, 1]\<rparr>)
   \<and> step (initial_state (2::nat) example_chain 3) < length (energy_change (initial_state (2::nat) example_chain 3))
   \<and> (\<exists>s'. loop_body example_move example_energy (initial_state 2 example_chain 3) = Inr s'
         \<and> printed s' = [(0, 8, 6)] \<and> aa_x (aa s') = [0, 1, 1, 0] \<and> aa_y (aa s') = [0, 0, 1, 1]
         \<and> aa_prev_energy (aa s') = 6)"
proof -
  let ?s = "initial_state (2::nat) example_chain 3"
  let ?a1 = "example_chain\<lparr>aa_temp_x := [0, 1, 1, 0], aa_temp_y := [0, 0, 1, 1]\<rparr>"
  have h1: "example_move (rng ?s) (aa ?s) = (True, 3, ?a1)"
    by (simp add: example_move_def initial_state_def)
  have h2: "step ?s < length (energy_change ?s)"
    by (simp add: initial_state_def)
  have e: "example_energy ?a1 [0, 1, 1, 0] [0, 0, 1, 1] = 6"
    by (simp add: example_energy_square example_chain_def)
  have p: "aa_prev_energy ?a1 = 8" "printed ?s = []" "step ?s = 0"
    by (simp_all add: example_chain_def initial_state_def)
  from candidate_committed_iff_strictly_lower
    [where move = example_move and s = ?s and g' = 3 and ?a1.0 = ?a1 and energy = example_energy,
     OF h1 h2]
  obtain s' where body: "loop_body example_move example_energy ?s = Inr s'"
    and decided:
      "if example_energy ?a1 (aa_temp_x ?a1) (aa_temp_y ?a1) < aa_prev_energy ?a1
       then aa_x (aa s') = aa_temp_x ?a1 \<and> aa_y (aa s') = aa_temp_y ?a1 \<and>
            aa_prev_energy (aa s') = example_energy ?a1 (aa_temp_x ?a1) (aa_temp_y ?a1) \<and>
            printed s' = printed ?s @
              [(step ?s, aa_prev_energy ?a1, example_energy ?a1 (aa_temp_x ?a1) (aa_temp_y ?a1))]
       else aa_x (aa s') = aa_x ?a1 \<and> aa_y (aa s') = aa_y ?a1 \<and>
            aa_prev_energy (aa s') = aa_prev_energy ?a1 \<and> printed s' = printed ?s"
    by blast
  from decided have
    "printed s' = [(0, 8, 6)] \<and> aa_x (aa s') = [0, 1, 1, 0] \<and> aa_y (aa s') = [0, 0, 1, 1]
       \<and> aa_prev_energy (aa s') = 6"
    by (simp add: e p)
  with body h1 h2 show ?thesis by blast
qed

text \<open>
  C5: when a valid candidate is rejected (its energy is not strictly less than the
  committed energy), the pass leaves the committed coordinates \<open>x\<close>, \<open>y\<close> and the cached
  energy as they were before the pass, and prints nothing. The proposal itself is assumed
  to keep its contract (\<open>move_frame\<close>).
\<close>

theorem rejected_candidate_keeps_committed_state:
  assumes "move_frame move"
    and "move (rng s) (aa s) = (True, g', a1)"
    and "\<not> energy a1 (aa_temp_x a1) (aa_temp_y a1) < aa_prev_energy (aa s)"
    and "step s < length (energy_change s)"
  shows "\<exists>s'. loop_body move energy s = Inr s' \<and>
     aa_x (aa s') = aa_x (aa s) \<and> aa_y (aa s') = aa_y (aa s) \<and>
     aa_prev_energy (aa s') = aa_prev_energy (aa s) \<and> printed s' = printed s"
proof -
  from move_frameD [OF assms(1,2)]
  have frame: "aa_x a1 = aa_x (aa s)" "aa_y a1 = aa_y (aa s)"
    "aa_prev_energy a1 = aa_prev_energy (aa s)" by simp_all
  with assms(3) have "\<not> improves (evaluate energy a1)"
    by (simp add: improves_def evaluate_def)
  with assms(2,4) frame show ?thesis
    by (simp add: loop_body_success decide_def evaluate_def)
qed

theorem rejected_candidate_keeps_committed_state_witness:
  "move_frame example_move
   \<and> example_move (rng (initial_state (1::nat) example_chain 3)) (aa (initial_state (1::nat) example_chain 3))
       = (True, 2, example_chain\<lparr>aa_temp_x := [0, 1, 2, 2], aa_temp_y := [0, 0, 0, 1]\<rparr>)
   \<and> \<not> example_energy (example_chain\<lparr>aa_temp_x := [0, 1, 2, 2], aa_temp_y := [0, 0, 0, 1]\<rparr>)
          [0, 1, 2, 2] [0, 0, 0, 1] < aa_prev_energy (aa (initial_state (1::nat) example_chain 3))
   \<and> step (initial_state (1::nat) example_chain 3) < length (energy_change (initial_state (1::nat) example_chain 3))
   \<and> (\<exists>s'. loop_body example_move example_energy (initial_state 1 example_chain 3) = Inr s'
         \<and> aa_x (aa s') = [0, 1, 2, 3] \<and> aa_y (aa s') = [0, 0, 0, 0]
         \<and> aa_prev_energy (aa s') = 8 \<and> printed s' = [])"
proof -
  let ?s = "initial_state (1::nat) example_chain 3"
  let ?a1 = "example_chain\<lparr>aa_temp_x := [0, 1, 2, 2], aa_temp_y := [0, 0, 0, 1]\<rparr>"
  have h2: "example_move (rng ?s) (aa ?s) = (True, 2, ?a1)"
    by (simp add: example_move_def initial_state_def)
  have e: "example_energy ?a1 [0, 1, 2, 2] [0, 0, 0, 1] = 8"
    by (simp add: example_energy_bent example_chain_def)
  have v: "aa_prev_energy (aa ?s) = 8" "aa_x (aa ?s) = [0, 1, 2, 3]" "aa_y (aa ?s) = [0, 0, 0, 0]"
    "printed ?s = []"
    by (simp_all add: initial_state_def example_chain_def)
  have h3: "\<not> example_energy ?a1 (aa_temp_x ?a1) (aa_temp_y ?a1) < aa_prev_energy (aa ?s)"
    by (simp add: example_energy_bent initial_state_def example_chain_def)
  have h4: "step ?s < length (energy_change ?s)"
    by (simp add: initial_state_def)
  from rejected_candidate_keeps_committed_state
    [where move = example_move and s = ?s and g' = 2 and ?a1.0 = ?a1 and energy = example_energy,
     OF example_move_frame h2 h3 h4]
  have "\<exists>s'. loop_body example_move example_energy ?s = Inr s'
         \<and> aa_x (aa s') = [0, 1, 2, 3] \<and> aa_y (aa s') = [0, 0, 0, 0]
         \<and> aa_prev_energy (aa s') = 8 \<and> printed s' = []"
    by (simp add: initial_state_def example_chain_def)
  moreover from h3 have "\<not> example_energy ?a1 [0, 1, 2, 2] [0, 0, 0, 1] < aa_prev_energy (aa ?s)"
    by simp
  ultimately show ?thesis using example_move_frame h2 h4 by blast
qed

section \<open>The step counter\<close>

text \<open>
  C3: a pass increments the counter exactly once when its move returned a valid candidate
  (accepted or not), and leaves it alone when the move failed; a pass whose valid candidate
  uses up the budget makes the loop return. After a failed move the trace and the output
  are unchanged too, and the loop retries: its next pass draws a new proposal from the
  generator state and the object that the failed move left behind, with the same counter.
  The retry consumes no step: the counter after it is the old counter plus one when the
  retry's move is valid, and when that reaches the budget the loop returns the state the
  retry produced.
\<close>

theorem step_counts_valid_candidates:
  assumes "step s < length (energy_change s)"
  shows "\<exists>s'. loop_body move energy s = Inr s' \<and>
     step s' = (if fst (move (rng s) (aa s)) then step s + 1 else step s) \<and>
     (step s < n \<longrightarrow> optimizer_loop move energy n s = optimizer_loop move energy n s') \<and>
     (fst (move (rng s) (aa s)) \<and> step s < n \<and> \<not> step s + 1 < n \<longrightarrow>
        optimizer_loop move energy n s = Some (Inr s')) \<and>
     (\<not> fst (move (rng s) (aa s)) \<longrightarrow>
        rng s' = fst (snd (move (rng s) (aa s))) \<and> aa s' = snd (snd (move (rng s) (aa s))) \<and>
        energy_change s' = energy_change s \<and> printed s' = printed s \<and>
        (step s < n \<longrightarrow>
           optimizer_loop move energy n s =
             (case loop_body move energy s' of
                Inl e \<Rightarrow> Some (Inl e)
              | Inr s'' \<Rightarrow> optimizer_loop move energy n s'') \<and>
           (\<exists>s''. loop_body move energy s' = Inr s'' \<and>
              step s'' = (if fst (move (rng s') (aa s')) then step s + 1 else step s) \<and>
              (\<not> step s'' < n \<longrightarrow> optimizer_loop move energy n s = Some (Inr s'')))))"
proof (cases "move (rng s) (aa s)")
  case (fields success g' a1)
  show ?thesis
  proof (cases success)
    case True
    from True fields assms obtain s' where body: "loop_body move energy s = Inr s'"
      and stp: "step s' = step s + 1"
      by (simp add: loop_body_success)
    have "step s < n \<longrightarrow> optimizer_loop move energy n s = optimizer_loop move energy n s'"
      using body by (simp add: loop_unfold)
    moreover have "step s < n \<and> \<not> step s + 1 < n \<longrightarrow> optimizer_loop move energy n s = Some (Inr s')"
      using body stp by (simp add: loop_unfold loop_stops)
    ultimately show ?thesis using True fields body stp by simp
  next
    case False
    define s' where "s' = s\<lparr>rng := g', aa := a1\<rparr>"
    from False fields have body: "loop_body move energy s = Inr s'"
      by (simp add: loop_body_failure s'_def)
    have same: "step s' = step s" "energy_change s' = energy_change s" "printed s' = printed s"
      "rng s' = g'" "aa s' = a1"
      by (simp_all add: s'_def)
    have again: "step s < n \<longrightarrow> optimizer_loop move energy n s = optimizer_loop move energy n s'"
      using body by (simp add: loop_unfold)
    have unfolded: "step s < n \<longrightarrow>
        optimizer_loop move energy n s =
          (case loop_body move energy s' of
             Inl e \<Rightarrow> Some (Inl e)
           | Inr s'' \<Rightarrow> optimizer_loop move energy n s'')"
    proof
      assume guard: "step s < n"
      with again have "optimizer_loop move energy n s = optimizer_loop move energy n s'" by simp
      also have "\<dots> = (case loop_body move energy s' of
             Inl e \<Rightarrow> Some (Inl e)
           | Inr s'' \<Rightarrow> optimizer_loop move energy n s'')"
        using guard same(1) by (subst optimizer_loop.simps) simp
      finally show "optimizer_loop move energy n s =
          (case loop_body move energy s' of
             Inl e \<Rightarrow> Some (Inl e)
           | Inr s'' \<Rightarrow> optimizer_loop move energy n s'')" .
    qed
    from assms same have "step s' < length (energy_change s')" by simp
    then obtain s'' where next_body: "loop_body move energy s' = Inr s''"
      using loop_body_in_bounds by blast
    from loop_body_counter [OF next_body] same(1)
    have next_step: "step s'' = (if fst (move (rng s') (aa s')) then step s + 1 else step s)"
      by simp
    have returns: "step s < n \<longrightarrow> \<not> step s'' < n \<longrightarrow> optimizer_loop move energy n s = Some (Inr s'')"
      using unfolded next_body by (simp add: loop_stops)
    have retry: "step s < n \<longrightarrow>
        (\<exists>s''. loop_body move energy s' = Inr s'' \<and>
           step s'' = (if fst (move (rng s') (aa s')) then step s + 1 else step s) \<and>
           (\<not> step s'' < n \<longrightarrow> optimizer_loop move energy n s = Some (Inr s'')))"
      using next_body next_step returns by blast
    from False fields body same again unfolded retry show ?thesis by simp
  qed
qed

theorem step_counts_valid_candidates_witness:
  "step (initial_state (0::nat) example_chain 1) < length (energy_change (initial_state (0::nat) example_chain 1))
   \<and> \<not> fst (example_move (rng (initial_state (0::nat) example_chain 1)) (aa (initial_state (0::nat) example_chain 1)))
   \<and> (\<exists>s'. loop_body example_move example_energy (initial_state 0 example_chain 1) = Inr s'
         \<and> step s' = 0 \<and> rng s' = 1 \<and> aa s' = example_chain
         \<and> energy_change s' = [0] \<and> printed s' = []
         \<and> loop_body example_move example_energy s' = Inr example_retry_final)
   \<and> step example_retry_final = 1
   \<and> optimizer_loop example_move example_energy 1 (initial_state 0 example_chain 1)
        = Some (Inr example_retry_final)
   \<and> (\<exists>s'. loop_body example_move example_energy (initial_state 0 example_chain 3) = Inr s'
         \<and> step s' = 0
         \<and> optimizer_loop example_move example_energy 3 s' = Some (Inr example_final))
   \<and> (\<exists>s'. loop_body example_move example_energy (initial_state 1 example_chain 3) = Inr s'
         \<and> step s' = 1)"
proof -
  let ?s = "initial_state (0::nat) example_chain 1"
  let ?u = "initial_state (0::nat) example_chain 3"
  let ?t = "initial_state (1::nat) example_chain 3"
  have h: "step ?s < length (energy_change ?s)" "step ?u < length (energy_change ?u)"
    "step ?t < length (energy_change ?t)"
    by (simp_all add: initial_state_def)
  have m: "\<not> fst (example_move (rng ?s) (aa ?s))" "\<not> fst (example_move (rng ?u) (aa ?u))"
    "fst (example_move (rng ?t) (aa ?t))"
    by (simp_all add: initial_state_def example_move_def)
  have mv: "example_move (rng ?s) (aa ?s) = (False, 1, example_chain)"
    by (simp add: initial_state_def example_move_def)
  have v: "step ?s = 0" "energy_change ?s = [0]" "printed ?s = []" "step ?s < 1"
    "step ?u = 0" "step ?u < 3" "step ?t = 0"
    by (simp_all add: initial_state_def)
  from step_counts_valid_candidates
    [where s = ?s and move = example_move and energy = example_energy and n = 1, OF h(1)]
  obtain s' where s': "loop_body example_move example_energy ?s = Inr s'"
    "step s' = 0" "rng s' = 1" "aa s' = example_chain"
    "energy_change s' = [0]" "printed s' = []"
    and retry: "\<exists>s''. loop_body example_move example_energy s' = Inr s'' \<and>
       step s'' = (if fst (example_move (rng s') (aa s')) then step ?s + 1 else step ?s) \<and>
       (\<not> step s'' < 1 \<longrightarrow> optimizer_loop example_move example_energy 1 ?s = Some (Inr s''))"
    using m(1) mv v by auto
  have "s' = \<lparr>rng = 1, aa = example_chain, energy_change = [0], step = 0, printed = []\<rparr>"
    using s'(2-6) by (intro optimizer_state.equality) simp_all
  with example_retry_pass
  have next_body: "loop_body example_move example_energy s' = Inr example_retry_final"
    by (simp only:)
  have fin: "step example_retry_final = 1" by (simp add: example_retry_final_def)
  from retry obtain s'' where again: "loop_body example_move example_energy s' = Inr s''"
    and returns: "\<not> step s'' < 1 \<longrightarrow>
      optimizer_loop example_move example_energy 1 ?s = Some (Inr s'')"
    by blast
  from again next_body have "s'' = example_retry_final" by simp
  with returns fin
  have ret: "optimizer_loop example_move example_energy 1 ?s = Some (Inr example_retry_final)"
    by simp
  from step_counts_valid_candidates
    [where s = ?u and move = example_move and energy = example_energy and n = 3, OF h(2)]
  obtain u' where u': "loop_body example_move example_energy ?u = Inr u'" "step u' = 0"
    "optimizer_loop example_move example_energy 3 ?u = optimizer_loop example_move example_energy 3 u'"
    using m(2) v by auto
  from u'(3) example_run
  have "optimizer_loop example_move example_energy 3 u' = Some (Inr example_final)"
    by (simp add: run_optimizer_def)
  with u'(1,2) have third: "\<exists>s'. loop_body example_move example_energy ?u = Inr s'
         \<and> step s' = 0
         \<and> optimizer_loop example_move example_energy 3 s' = Some (Inr example_final)"
    by blast
  from step_counts_valid_candidates
    [where s = ?t and move = example_move and energy = example_energy and n = 3, OF h(3)]
  have second: "\<exists>s'. loop_body example_move example_energy ?t = Inr s' \<and> step s' = 1"
    using m(3) v by auto
  from s' next_body have first: "\<exists>s'. loop_body example_move example_energy ?s = Inr s'
         \<and> step s' = 0 \<and> rng s' = 1 \<and> aa s' = example_chain
         \<and> energy_change s' = [0] \<and> printed s' = []
         \<and> loop_body example_move example_energy s' = Inr example_retry_final"
    by blast
  from h(1) m(1) first fin ret third second show ?thesis by blast
qed

section \<open>The energy trace\<close>

text \<open>
  C2: the committed energies recorded in \<open>energy_change\<close> never increase from one
  completed step to the next. This holds of the entries written so far at every point of a
  run, and of the whole array when the run has completed. The proposal is assumed to keep
  its contract (\<open>move_frame\<close>), so that only the accept branch changes the cached energy.
\<close>

theorem committed_energies_never_increase:
  assumes "move_frame move"
  shows "(\<forall>K s k. loop_iterations move energy n K (initial_state g a n) = Inr s \<and> Suc k < step s
            \<longrightarrow> energy_change s ! Suc k \<le> energy_change s ! k)
       \<and> (\<forall>s k. run_optimizer move energy n g a = Some (Inr s) \<and> Suc k < n
            \<longrightarrow> energy_change s ! Suc k \<le> energy_change s ! k)"
proof (intro conjI allI impI)
  fix K s k
  assume "loop_iterations move energy n K (initial_state g a n) = Inr s \<and> Suc k < step s"
  moreover from iterations_keep_trace_inv
    [OF assms trace_inv_initial [of n g a], where energy = energy and k = K]
  obtain s' where "loop_iterations move energy n K (initial_state g a n) = Inr s'" "trace_inv n s'"
    by blast
  ultimately have "trace_inv n s" "Suc k < step s" by simp_all
  then show "energy_change s ! Suc k \<le> energy_change s ! k" by (rule trace_inv_descending)
next
  fix s k
  assume run: "run_optimizer move energy n g a = Some (Inr s) \<and> Suc k < n"
  with completed_run_trace_inv
    [OF assms, where energy = energy and n = n and g = g and a = a and r = "Inr s"]
  have "trace_inv n s" "Suc k < step s" by simp_all
  then show "energy_change s ! Suc k \<le> energy_change s ! k" by (rule trace_inv_descending)
qed

theorem committed_energies_never_increase_witness:
  "move_frame example_move
   \<and> loop_iterations example_move example_energy 3 5 (initial_state 0 example_chain 3) = Inr example_final
   \<and> run_optimizer example_move example_energy 3 0 example_chain = Some (Inr example_final)
   \<and> energy_change example_final = [8, 6, 6]
   \<and> energy_change example_final ! Suc 0 \<le> energy_change example_final ! 0
   \<and> energy_change example_final ! Suc 1 \<le> energy_change example_final ! 1"
proof -
  have "Suc 0 < (3::nat)" "Suc 1 < (3::nat)" by simp_all
  with committed_energies_never_increase
    [OF example_move_frame, where energy = example_energy and n = 3 and g = 0 and a = example_chain]
    example_run
  have "energy_change example_final ! Suc 0 \<le> energy_change example_final ! 0
      \<and> energy_change example_final ! Suc 1 \<le> energy_change example_final ! 1"
    by blast
  moreover have "energy_change example_final = [8, 6, 6]" by (simp add: example_final_def)
  ultimately show ?thesis using example_move_frame example_iterations example_run by blast
qed

text \<open>
  C9: when a run with at least one step completes, the reported energy (the cached
  committed energy at the end) is the last entry of \<open>energy_change\<close> and the least entry
  of \<open>energy_change\<close>. The proposal is assumed to keep its contract (\<open>move_frame\<close>).
\<close>

theorem reported_energy_is_last_and_least:
  assumes "move_frame move" and "1 \<le> n" and "run_optimizer move energy n g a = Some (Inr s)"
  shows "reported_energy s = last (energy_change s) \<and> reported_energy s = Min (set (energy_change s))"
proof -
  from completed_run_trace_inv [OF assms(1,3)]
  have stp: "step s = n" and inv: "trace_inv n s" by simp_all
  from inv have len: "length (energy_change s) = n" by (simp add: trace_inv_def in_bounds_def)
  with assms(2) have ne: "energy_change s \<noteq> []" by auto
  from inv stp assms(2) have at: "energy_change s ! (n - 1) = aa_prev_energy (aa s)"
    by (simp add: trace_inv_def)
  with ne len have l: "last (energy_change s) = aa_prev_energy (aa s)"
    by (simp add: last_conv_nth)
  from inv stp len have least: "\<forall>z \<in> set (energy_change s). aa_prev_energy (aa s) \<le> z"
    by (simp add: trace_inv_def)
  from l ne have mem: "aa_prev_energy (aa s) \<in> set (energy_change s)"
    by (metis last_in_set)
  from least mem have "Min (set (energy_change s)) = aa_prev_energy (aa s)"
    by (intro Min_eqI) auto
  with l show ?thesis by (simp add: reported_energy_def)
qed

theorem reported_energy_is_last_and_least_witness:
  "move_frame example_move \<and> (1::nat) \<le> 3
   \<and> run_optimizer example_move example_energy 3 0 example_chain = Some (Inr example_final)
   \<and> energy_change example_final = [8, 6, 6]
   \<and> reported_energy example_final = 6
   \<and> reported_energy example_final = last (energy_change example_final)
   \<and> reported_energy example_final = Min (set (energy_change example_final))"
proof -
  have n: "(1::nat) \<le> 3" by simp
  from reported_energy_is_last_and_least [OF example_move_frame n example_run]
  have "reported_energy example_final = last (energy_change example_final)
      \<and> reported_energy example_final = Min (set (energy_change example_final))" .
  moreover have "energy_change example_final = [8, 6, 6]" "reported_energy example_final = 6"
    by (simp_all add: example_final_def reported_energy_def)
  ultimately show ?thesis using example_move_frame n example_run by blast
qed

text \<open>
  C10: at every point of a run the counter is at most \<open>num_steps\<close>, the array has
  \<open>num_steps\<close> entries, no write has raised, and the indices written so far are
  \<open>0, 1, \<dots>, step - 1\<close> in this order: every write is in bounds and no index is
  written twice. A run that returns returns a state, never an \<open>IndexError\<close>, with the
  counter at \<open>num_steps\<close> and every index \<open>0 \<dots> num_steps - 1\<close> written exactly once.
\<close>

theorem trace_writes_stay_in_bounds:
  "(\<forall>k. \<exists>s. loop_iterations move energy n k (initial_state g a n) = Inr s \<and>
           step s \<le> n \<and> length (energy_change s) = n \<and>
           write_indices move energy n k (initial_state g a n) = [0..<step s] \<and>
           distinct (write_indices move energy n k (initial_state g a n)) \<and>
           (\<forall>i \<in> set (write_indices move energy n k (initial_state g a n)). i < n))
   \<and> (\<forall>r. run_optimizer move energy n g a = Some r \<longrightarrow>
          (\<exists>s k. r = Inr s \<and> step s = n \<and>
             loop_iterations move energy n k (initial_state g a n) = Inr s \<and>
             write_indices move energy n k (initial_state g a n) = [0..<n]))"
proof (intro conjI allI impI)
  fix k
  from iterations_write_indices
    [OF in_bounds_initial [of n g a], where move = move and energy = energy and k = k]
  obtain s where s: "loop_iterations move energy n k (initial_state g a n) = Inr s" "in_bounds n s"
    "write_indices move energy n k (initial_state g a n) = [step (initial_state g a n)..<step s]"
    by blast
  have "step (initial_state g a n) = 0" by (simp add: initial_state_def)
  with s have "loop_iterations move energy n k (initial_state g a n) = Inr s \<and>
           step s \<le> n \<and> length (energy_change s) = n \<and>
           write_indices move energy n k (initial_state g a n) = [0..<step s] \<and>
           distinct (write_indices move energy n k (initial_state g a n)) \<and>
           (\<forall>i \<in> set (write_indices move energy n k (initial_state g a n)). i < n)"
    by (auto simp: in_bounds_def)
  then show "\<exists>s. loop_iterations move energy n k (initial_state g a n) = Inr s \<and>
           step s \<le> n \<and> length (energy_change s) = n \<and>
           write_indices move energy n k (initial_state g a n) = [0..<step s] \<and>
           distinct (write_indices move energy n k (initial_state g a n)) \<and>
           (\<forall>i \<in> set (write_indices move energy n k (initial_state g a n)). i < n)"
    by blast
next
  fix r
  assume "run_optimizer move energy n g a = Some r"
  from completed_run_in_bounds [OF this]
  show "\<exists>s k. r = Inr s \<and> step s = n \<and>
             loop_iterations move energy n k (initial_state g a n) = Inr s \<and>
             write_indices move energy n k (initial_state g a n) = [0..<n]"
    by blast
qed

theorem trace_writes_stay_in_bounds_witness:
  "run_optimizer example_move example_energy 3 0 example_chain = Some (Inr example_final)
   \<and> step example_final = 3
   \<and> (\<exists>k. loop_iterations example_move example_energy 3 k (initial_state 0 example_chain 3) = Inr example_final
         \<and> write_indices example_move example_energy 3 k (initial_state 0 example_chain 3) = [0..<3])
   \<and> (\<exists>s. loop_iterations example_move example_energy 3 2 (initial_state 0 example_chain 3) = Inr s
         \<and> step s \<le> 3 \<and> length (energy_change s) = 3
         \<and> write_indices example_move example_energy 3 2 (initial_state 0 example_chain 3) = [0..<step s])"
proof -
  note inst = trace_writes_stay_in_bounds
    [where move = example_move and energy = example_energy and n = 3 and g = 0 and a = example_chain]
  from inst example_run
  have "\<exists>s k. Inr example_final = Inr s \<and> step s = 3 \<and>
          loop_iterations example_move example_energy 3 k (initial_state 0 example_chain 3) = Inr s \<and>
          write_indices example_move example_energy 3 k (initial_state 0 example_chain 3) = [0..<3]"
    by blast
  then have a: "step example_final = 3"
    "\<exists>k. loop_iterations example_move example_energy 3 k (initial_state 0 example_chain 3) = Inr example_final
         \<and> write_indices example_move example_energy 3 k (initial_state 0 example_chain 3) = [0..<3]"
    by auto
  from inst have "\<exists>s. loop_iterations example_move example_energy 3 2 (initial_state 0 example_chain 3) = Inr s
         \<and> step s \<le> 3 \<and> length (energy_change s) = 3
         \<and> write_indices example_move example_energy 3 2 (initial_state 0 example_chain 3) = [0..<step s]"
    by blast
  with a example_run show ?thesis by blast
qed

section \<open>Termination\<close>

text \<open>
  C4: if the move generator succeeds infinitely often along the stream of proposals, the
  loop returns, and it returns after exactly \<open>num_steps\<close> proposals were valid and
  evaluated: it makes \<open>K\<close> passes, where \<open>K\<close> is the first point at which the number of
  valid candidates reaches \<open>num_steps\<close>. The state it returns holds the committed chain
  reached by those \<open>K\<close> passes, and the reported energy is that chain's cached energy.
\<close>

theorem loop_returns_after_num_steps_candidates:
  assumes "succeeds_infinitely_often move energy g a"
  shows "\<exists>K s. run_optimizer move energy n g a = Some (Inr s) \<and>
           loop_iterations move energy n K (initial_state g a n) = Inr s \<and>
           step s = n \<and>
           valid_candidates move energy g a K = n \<and>
           (\<forall>j<K. valid_candidates move energy g a j < n) \<and>
           (rng s, aa s) = (chain_step move energy ^^ K) (g, a) \<and>
           reported_energy s = aa_prev_energy (snd ((chain_step move energy ^^ K) (g, a)))"
proof -
  let ?s0 = "initial_state g a n"
  have s0: "step ?s0 = 0" "rng ?s0 = g" "aa ?s0 = a" by (simp_all add: initial_state_def)
  from first_full_budget [OF assms, of n]
  obtain K where K: "valid_candidates move energy g a K = n"
    "\<forall>j<K. valid_candidates move energy g a j < n" by blast
  from K(2) have "\<forall>j<K. step ?s0 + valid_candidates move energy (rng ?s0) (aa ?s0) j < n"
    by (simp add: s0)
  from iterations_follow_chain [OF in_bounds_initial this]
  obtain s where s: "loop_iterations move energy n K ?s0 = Inr s"
    "step s = valid_candidates move energy g a K"
    "(rng s, aa s) = (chain_step move energy ^^ K) (g, a)"
    by (auto simp: s0)
  from s(2) K(1) have stp: "step s = n" by simp
  then have "finished n (Inr s)" by simp
  from iterations_imp_loop [OF s(1) this]
  have run: "run_optimizer move energy n g a = Some (Inr s)" by (simp add: run_optimizer_def)
  from s(3) have "reported_energy s = aa_prev_energy (snd ((chain_step move energy ^^ K) (g, a)))"
    by (metis reported_energy_def snd_conv)
  with run s(1,3) stp K show ?thesis by blast
qed

theorem loop_returns_after_num_steps_candidates_witness:
  "succeeds_infinitely_often example_move example_energy 0 example_chain
   \<and> (\<exists>K. run_optimizer example_move example_energy 3 0 example_chain = Some (Inr example_final)
          \<and> loop_iterations example_move example_energy 3 K (initial_state 0 example_chain 3) = Inr example_final
          \<and> valid_candidates example_move example_energy 0 example_chain K = 3)
   \<and> step example_final = 3 \<and> reported_energy example_final = 6"
proof -
  from loop_returns_after_num_steps_candidates
    [OF example_succeeds_infinitely_often, where energy = example_energy and a = example_chain and n = 3]
  obtain K s where r: "run_optimizer example_move example_energy 3 0 example_chain = Some (Inr s)"
    "loop_iterations example_move example_energy 3 K (initial_state 0 example_chain 3) = Inr s"
    "step s = 3" "valid_candidates example_move example_energy 0 example_chain K = 3"
    by blast
  from r(1) example_run have "s = example_final" by simp
  with r have "\<exists>K. run_optimizer example_move example_energy 3 0 example_chain = Some (Inr example_final)
          \<and> loop_iterations example_move example_energy 3 K (initial_state 0 example_chain 3) = Inr example_final
          \<and> valid_candidates example_move example_energy 0 example_chain K = 3"
    and "step example_final = 3"
    by auto
  moreover have "reported_energy example_final = 6"
    by (simp add: reported_energy_def example_final_def)
  ultimately show ?thesis using example_succeeds_infinitely_often by blast
qed

text \<open>
  C6, as the code has it: the loop has no cap on retries and no outcome for exhaustion.
  Whatever it returns is a normal completion (a state with the counter at \<open>num_steps\<close>);
  and when the generator stops producing valid candidates before \<open>num_steps\<close> of them
  were found, the loop retries without bound and never returns.
\<close>

theorem exhausted_generator_retries_forever:
  "(\<forall>r. run_optimizer move energy n g a = Some r \<longrightarrow> (\<exists>s. r = Inr s \<and> step s = n))
   \<and> ((\<forall>j. k \<le> j \<longrightarrow> \<not> attempt_succeeds move energy g a j)
        \<and> valid_candidates move energy g a k < n
      \<longrightarrow> run_optimizer move energy n g a = None)"
proof (intro conjI allI impI)
  fix r
  assume "run_optimizer move energy n g a = Some r"
  from completed_run_in_bounds [OF this] show "\<exists>s. r = Inr s \<and> step s = n" by blast
next
  assume h: "(\<forall>j. k \<le> j \<longrightarrow> \<not> attempt_succeeds move energy g a j)
        \<and> valid_candidates move energy g a k < n"
  then have "\<forall>j. valid_candidates move energy g a j < n"
    using no_more_candidates [of k move energy g a] by (meson le_less_trans)
  then show "run_optimizer move energy n g a = None" by (rule starved_loop_never_returns)
qed

theorem exhausted_generator_retries_forever_witness:
  "(\<forall>j. \<not> attempt_succeeds stuck_move example_energy 0 example_chain j)
   \<and> valid_candidates stuck_move example_energy 0 example_chain 0 < 2
   \<and> run_optimizer stuck_move example_energy 2 0 example_chain = None
   \<and> run_optimizer example_move example_energy 3 0 example_chain = Some (Inr example_final)
   \<and> step example_final = 3"
proof -
  have a: "\<forall>j. \<not> attempt_succeeds stuck_move example_energy 0 example_chain j"
    by (simp add: stuck_attempts)
  have b: "valid_candidates stuck_move example_energy 0 example_chain 0 < 2"
    by (simp add: stuck_candidates)
  from exhausted_generator_retries_forever
    [where move = stuck_move and energy = example_energy and n = 2 and g = 0 and a = example_chain and k = 0]
    a b
  have c: "run_optimizer stuck_move example_energy 2 0 example_chain = None" by blast
  from exhausted_generator_retries_forever
    [where move = example_move and energy = example_energy and n = 3 and g = 0 and a = example_chain and k = 0]
    example_run
  have d: "step example_final = 3" by auto
  from a b c d example_run show ?thesis by blast
qed

text \<open>
  With a generator that never finds a valid candidate and a budget of one step, the loop
  has no outcome at all: nothing is surfaced to the caller.
\<close>

theorem stuck_generator_counterexample:
  "run_optimizer stuck_move example_energy 1 0 example_chain = None"
proof (rule starved_loop_never_returns)
  show "\<forall>k. valid_candidates stuck_move example_energy 0 example_chain k < 1"
    by (simp add: stuck_candidates)
qed

section \<open>A zero step budget\<close>

text \<open>
  C7: with a step budget of 0 the loop returns at once, whatever the move generator and
  the energy evaluator are: the generator state, the whole chain object (coordinates,
  candidate and cached energy), the empty trace, the counter and the output are those of
  the initial state, so no proposal, no evaluation and no commit took place.
\<close>

theorem zero_budget_returns_initial:
  "run_optimizer move energy 0 g a = Some (Inr (initial_state g a 0))
   \<and> aa (initial_state g a 0) = a \<and> rng (initial_state g a 0) = g
   \<and> printed (initial_state g a 0) = [] \<and> step (initial_state g a 0) = 0
   \<and> reported_energy (initial_state g a 0) = aa_prev_energy a"
  by (simp add: run_optimizer_def optimizer_loop.simps initial_state_def reported_energy_def)

theorem zero_budget_returns_initial_witness:
  "run_optimizer example_move example_energy 0 0 example_chain = Some (Inr (initial_state 0 example_chain 0))
   \<and> aa (initial_state (0::nat) example_chain 0) = example_chain
   \<and> energy_change (initial_state (0::nat) example_chain 0) = []
   \<and> reported_energy (initial_state (0::nat) example_chain 0) = 8"
  using zero_budget_returns_initial [of example_move example_energy "0::nat" example_chain]
  by (simp add: initial_state_def example_chain_def)

section \<open>Chains without hydrophobic residues\<close>

lemma polar_residue_energy: "fst r = Polar \<Longrightarrow> residue_energy tags cells r = 0"
  by (simp add: residue_energy_def)

lemma all_zero_sum: "(\<And>z. z \<in> set zs \<Longrightarrow> f z = (0::int)) \<Longrightarrow> sum_list (map f zs) = 0"
  by (induction zs) simp_all

text \<open>
  C8: for a chain with no hydrophobic residue the energy evaluator returns 0, whatever
  the coordinates are (one position per residue; the shape need not even be
  self-avoiding).
\<close>

theorem no_hydrophobic_residue_zero_energy:
  assumes "length xs = length tags" and "length ys = length tags"
    and "Hydrophobic \<notin> set tags"
  shows "measure_energy tags xs ys = Inr 0"
proof -
  have "sum_list (map (residue_energy tags (zip xs ys)) (zip tags (zip xs ys))) = 0"
  proof (rule all_zero_sum)
    fix r assume r: "r \<in> set (zip tags (zip xs ys))"
    obtain t c where "r = (t, c)" by (cases r)
    with r have "fst r \<in> set tags" by (auto dest: set_zip_leftD)
    with assms(3) have "fst r = Polar" by (cases "fst r") auto
    then show "residue_energy tags (zip xs ys) r = 0" by (rule polar_residue_energy)
  qed
  with assms(1,2) show ?thesis by (simp add: measure_energy_def)
qed

theorem no_hydrophobic_residue_zero_energy_witness:
  "length [0, 1, 1 :: int] = length [Polar, Polar, Polar]
   \<and> length [0, 0, 1 :: int] = length [Polar, Polar, Polar]
   \<and> Hydrophobic \<notin> set [Polar, Polar, Polar]
   \<and> measure_energy [Polar, Polar, Polar] [0, 1, 1] [0, 0, 1] = Inr 0
   \<and> measure_energy [Hydrophobic, Polar, Polar] [0, 1, 1] [0, 0, 1] = Inr 4"
proof -
  have h: "length [0, 1, 1 :: int] = length [Polar, Polar, Polar]"
    "length [0, 0, 1 :: int] = length [Polar, Polar, Polar]"
    "Hydrophobic \<notin> set [Polar, Polar, Polar]"
    by simp_all
  have "measure_energy [Hydrophobic, Polar, Polar] [0, 1, 1] [0, 0, 1] = Inr 4"
    by (simp add: measure_energy_def residue_energy_def unfavourable_def adjacent_cells_def)
  with h no_hydrophobic_residue_zero_energy [OF h] show ?thesis by blast
qed

end
